theory Spec2Isabelle
  imports Complex_Main
begin

section \<open>Numeric values\<close>

text \<open>
  The program computes on IEEE doubles held in NumPy arrays. A value is modelled as an
  exact real number or one of the three special values the code tests for
  (\<open>np.isinf\<close>, \<open>pd.isna\<close>). Rounding, overflow and underflow of finite values and
  the sign of zero are not modelled; every operation below follows the IEEE rule for
  the special values.
\<close>

datatype fl = Fin real | PInf | NInf | NaN

datatype error = IndexError | KeyError | ValueError | EmptySubtable

fun isnan :: "fl \<Rightarrow> bool" where
  "isnan NaN = True"
| "isnan _ = False"

fun isinf :: "fl \<Rightarrow> bool" where
  "isinf PInf = True"
| "isinf NInf = True"
| "isinf _ = False"

fun fneg :: "fl \<Rightarrow> fl" where
  "fneg (Fin a) = Fin (- a)"
| "fneg PInf = NInf"
| "fneg NInf = PInf"
| "fneg NaN = NaN"

fun fadd :: "fl \<Rightarrow> fl \<Rightarrow> fl" where
  "fadd NaN _ = NaN"
| "fadd _ NaN = NaN"
| "fadd (Fin a) (Fin b) = Fin (a + b)"
| "fadd PInf NInf = NaN"
| "fadd NInf PInf = NaN"
| "fadd PInf _ = PInf"
| "fadd NInf _ = NInf"
| "fadd (Fin a) b = b"

definition fsub :: "fl \<Rightarrow> fl \<Rightarrow> fl" where
  "fsub a b = fadd a (fneg b)"

fun fmul :: "fl \<Rightarrow> fl \<Rightarrow> fl" where
  "fmul NaN _ = NaN"
| "fmul _ NaN = NaN"
| "fmul (Fin a) (Fin b) = Fin (a * b)"
| "fmul PInf (Fin b) = (if b = 0 then NaN else if 0 < b then PInf else NInf)"
| "fmul NInf (Fin b) = (if b = 0 then NaN else if 0 < b then NInf else PInf)"
| "fmul (Fin a) PInf = (if a = 0 then NaN else if 0 < a then PInf else NInf)"
| "fmul (Fin a) NInf = (if a = 0 then NaN else if 0 < a then NInf else PInf)"
| "fmul PInf PInf = PInf"
| "fmul NInf NInf = PInf"
| "fmul PInf NInf = NInf"
| "fmul NInf PInf = NInf"

fun fdiv :: "fl \<Rightarrow> fl \<Rightarrow> fl" where
  "fdiv NaN _ = NaN"
| "fdiv _ NaN = NaN"
| "fdiv (Fin a) (Fin b) =
     (if b = 0 then (if a = 0 then NaN else if 0 < a then PInf else NInf)
      else Fin (a / b))"
| "fdiv (Fin a) _ = Fin 0"
| "fdiv PInf (Fin b) = (if 0 \<le> b then PInf else NInf)"
| "fdiv NInf (Fin b) = (if 0 \<le> b then NInf else PInf)"
| "fdiv _ _ = NaN"

fun fabs :: "fl \<Rightarrow> fl" where
  "fabs (Fin a) = Fin \<bar>a\<bar>"
| "fabs PInf = PInf"
| "fabs NInf = PInf"
| "fabs NaN = NaN"

fun fsqrt :: "fl \<Rightarrow> fl" where
  "fsqrt (Fin a) = (if a < 0 then NaN else Fin (sqrt a))"
| "fsqrt PInf = PInf"
| "fsqrt NInf = NaN"
| "fsqrt NaN = NaN"

text \<open>\<open>x ** n\<close> for a whole exponent; \<open>x ** 0\<close> is 1 for every \<open>x\<close>, NaN included.\<close>

primrec fpow :: "fl \<Rightarrow> nat \<Rightarrow> fl" where
  "fpow x 0 = Fin 1"
| "fpow x (Suc n) = fmul x (fpow x n)"

text \<open>Comparisons: any comparison with NaN is false.\<close>

fun flt :: "fl \<Rightarrow> fl \<Rightarrow> bool" where
  "flt NaN _ = False"
| "flt _ NaN = False"
| "flt (Fin a) (Fin b) = (a < b)"
| "flt (Fin a) PInf = True"
| "flt NInf (Fin b) = True"
| "flt NInf PInf = True"
| "flt _ _ = False"

definition fgt :: "fl \<Rightarrow> fl \<Rightarrow> bool" where
  "fgt a b = flt b a"

text \<open>IEEE equality, as Python's \<open>==\<close> and \<open>!=\<close> on floats: NaN equals nothing.\<close>

definition feq :: "fl \<Rightarrow> fl \<Rightarrow> bool" where
  "feq a b = (\<not> isnan a \<and> \<not> isnan b \<and> a = b)"

definition np_sum :: "fl list \<Rightarrow> fl" where
  "np_sum xs = foldl fadd (Fin 0) xs"

definition np_mean :: "fl list \<Rightarrow> fl" where
  "np_mean xs = fdiv (np_sum xs) (Fin (real (length xs)))"

definition fmin2 :: "fl \<Rightarrow> fl \<Rightarrow> fl" where
  "fmin2 a b = (if isnan a \<or> isnan b then NaN else if flt b a then b else a)"

text \<open>\<open>ndarray.min()\<close>: raises ValueError on an empty array, propagates NaN.\<close>

fun np_min :: "fl list \<Rightarrow> error + fl" where
  "np_min [] = Inl ValueError"
| "np_min (x # xs) = Inr (foldl fmin2 x xs)"

section \<open>Configuration constants\<close>

definition THRESHOLD_DISTANCE :: fl where
  "THRESHOLD_DISTANCE = Fin 50000"

text \<open>
  \<open>TOP_PERCENTILE = 0.2\<close>. The double nearest to 0.2 is slightly above one fifth; for
  a count below \<open>2\<^sup>4\<^sup>0\<close> the product in doubles still truncates to the count
  divided by five, so the exact fraction gives the same \<open>n_top\<close>.
\<close>

definition TOP_PERCENTILE :: real where
  "TOP_PERCENTILE = 2 / 10"

definition MIN_REF_POINTS :: nat where
  "MIN_REF_POINTS = 3"

text \<open>\<open>IDW_POWER = 2.0\<close>: the only exponent the program uses is this whole number.\<close>

definition IDW_POWER :: nat where
  "IDW_POWER = 2"

text \<open>
  \<open>INVALID_VALUES = [-9999, np.nan, None]\<close>. Cells of a numeric column are never
  \<open>None\<close> (a missing cell is read as NaN), so the list is modelled by its two numeric
  members.
\<close>

definition INVALID_VALUES :: "fl list" where
  "INVALID_VALUES = [Fin (- 9999), NaN]"

section \<open>Validity test and inverse-distance weighting\<close>

text \<open>
  \<open>value not in INVALID_VALUES and not pd.isna(value)\<close>. Python's \<open>in\<close> compares by
  identity or \<open>==\<close>, so whether a NaN is found in the list depends on object identity;
  the second conjunct rejects every NaN either way.
\<close>

definition is_valid_value :: "fl \<Rightarrow> bool" where
  "is_valid_value v = (v \<notin> set INVALID_VALUES \<and> \<not> isnan v)"

text \<open>
  \<open>arr[mask]\<close> with a Python list of booleans: an empty list selects nothing, a list
  whose length differs from the array's raises IndexError.
\<close>

definition mask_select :: "'a list \<Rightarrow> bool list \<Rightarrow> error + 'a list" where
  "mask_select arr bmask =
     (if bmask = [] then Inr []
      else if length bmask \<noteq> length arr then Inl IndexError
      else Inr (map fst (filter snd (zip arr bmask))))"

text \<open>\<open>weights = 1.0 / (valid_distances ** power); weights[np.isinf(weights)] = 0\<close>\<close>

definition idw_weights :: "fl list \<Rightarrow> nat \<Rightarrow> fl list" where
  "idw_weights valid_distances pw =
     map (\<lambda>w. if isinf w then Fin 0 else w)
       (map (\<lambda>d. fdiv (Fin 1) (fpow d pw)) valid_distances)"

definition inverse_distance_weighting :: "fl list \<Rightarrow> fl list \<Rightarrow> nat \<Rightarrow> error + fl" where
  "inverse_distance_weighting values distances pw =
     (let valid_mask = map is_valid_value values in
      case mask_select values valid_mask of
        Inl e \<Rightarrow> Inl e
      | Inr valid_values \<Rightarrow>
          (case mask_select distances valid_mask of
             Inl e \<Rightarrow> Inl e
           | Inr valid_distances \<Rightarrow>
               if length valid_values = 0 then Inr NaN
               else
                 let weights = idw_weights valid_distances pw;
                     total_weight = np_sum weights
                 in if fgt total_weight (Fin 0)
                    then Inr (fdiv (np_sum (map2 fmul valid_values weights)) total_weight)
                    else Inr (np_mean valid_values)))"

section \<open>Impact scores and temporal trends\<close>

text \<open>
  Absolute and relative change of one metric, the body of the loop over
  \<open>target_columns\<close> in \<open>process_forest_metrics\<close>: the pair is
  \<open>(result_row[col_AC], result_row[col_RC])\<close>.
\<close>

definition impact_scores :: "fl \<Rightarrow> fl \<Rightarrow> fl \<times> fl" where
  "impact_scores road bg_mean =
     (if is_valid_value road \<and> is_valid_value bg_mean then
        (let denominator = fadd (fabs bg_mean) (fabs road) in
           (fsub road bg_mean,
            if \<not> feq denominator (Fin 0)
            then fmul (fdiv (fsub road bg_mean) denominator) (Fin 100)
            else NaN))
      else (NaN, NaN))"

type_synonym row = "string \<rightharpoonup> fl"

definition endswith :: "string \<Rightarrow> string \<Rightarrow> bool" where
  "endswith s suf = (length suf \<le> length s \<and> drop (length s - length suf) s = suf)"

text \<open>\<open>var[:-4] if var.endswith('2000') or var.endswith('2020') else var\<close>\<close>

definition base_var_of :: "string \<Rightarrow> string" where
  "base_var_of var =
     (if endswith var ''2000'' \<or> endswith var ''2020''
      then take (length var - 4) var else var)"

text \<open>
  One iteration of the loop of \<open>calculate_temporal_trends\<close>. \<open>row[key]\<close> raises
  KeyError on a missing key; the \<open>and\<close> of the test is short-circuit, so the 2000
  value is read only when the 2020 value is valid.
\<close>

definition trend_entry :: "row \<Rightarrow> string \<Rightarrow> row \<Rightarrow> error + row" where
  "trend_entry row var trends =
     (let base_var = base_var_of var;
          var2000 = base_var @ ''2000_AC'';
          var2020 = base_var @ ''2020_AC'';
          undefined_both = trends(base_var @ ''_AC_trend'' \<mapsto> NaN,
                                  base_var @ ''_RC_trend'' \<mapsto> NaN)
      in case row var2020 of
           None \<Rightarrow> Inl KeyError
         | Some ac2020 \<Rightarrow>
             if is_valid_value ac2020 then
               (case row var2000 of
                  None \<Rightarrow> Inl KeyError
                | Some ac2000 \<Rightarrow>
                    if is_valid_value ac2000 then
                      (let denominator = fadd (fabs ac2000) (fabs ac2020) in
                         Inr (trends(base_var @ ''_AC_trend'' \<mapsto> fsub ac2020 ac2000,
                                     base_var @ ''_RC_trend'' \<mapsto>
                                       (if fgt denominator (Fin 0)
                                        then fmul (fdiv (fsub ac2020 ac2000) denominator) (Fin 100)
                                        else NaN))))
                    else Inr undefined_both)
             else Inr undefined_both)"

fun trends_loop :: "row \<Rightarrow> string list \<Rightarrow> row \<Rightarrow> error + row" where
  "trends_loop row [] trends = Inr trends"
| "trends_loop row (var # vars) trends =
     (case trend_entry row var trends of
        Inl e \<Rightarrow> Inl e
      | Inr trends' \<Rightarrow> trends_loop row vars trends')"

definition calculate_temporal_trends :: "row \<Rightarrow> string list \<Rightarrow> error + row" where
  "calculate_temporal_trends row target_vars = trends_loop row target_vars Map.empty"

section \<open>Point records and reference selection\<close>

text \<open>
  A row of the merged table. \<open>metric p col\<close> is \<open>p[col]\<close> for a metric column; the
  input tables are taken to have every column the program reads.
\<close>

record point =
  pointID :: int
  X :: fl
  Y :: fl
  CEI :: fl
  Windowflag :: fl
  Buffer_type :: fl
  NTL2000 :: fl
  NTL2020 :: fl
  ForestChange :: fl
  Plantations :: fl
  metric :: "string \<Rightarrow> fl"

definition bind_err :: "error + 'a \<Rightarrow> ('a \<Rightarrow> error + 'b) \<Rightarrow> error + 'b" where
  "bind_err m f = (case m of Inl e \<Rightarrow> Inl e | Inr x \<Rightarrow> f x)"

text \<open>\<open>euclidean_distance(x1, y1, x2, y2)\<close>, lines 25 to 27.\<close>

definition euclidean_distance :: "fl \<Rightarrow> fl \<Rightarrow> fl \<Rightarrow> fl \<Rightarrow> fl" where
  "euclidean_distance x1 y1 x2 y2 = fsqrt (fadd (fpow (fsub x2 x1) 2) (fpow (fsub y2 y1) 2))"

text \<open>\<open>np.sqrt((table2_coords[:, 0] - row['X'])**2 + (table2_coords[:, 1] - row['Y'])**2)\<close>\<close>

definition distances_of :: "point \<Rightarrow> point list \<Rightarrow> fl list" where
  "distances_of row table2 =
     map (\<lambda>c. fsqrt (fadd (fpow (fsub (X c) (X row)) 2) (fpow (fsub (Y c) (Y row)) 2))) table2"

definition cindex_diffs_of :: "point \<Rightarrow> point list \<Rightarrow> fl list" where
  "cindex_diffs_of row table2 = map (\<lambda>c. fabs (fsub (CEI c) (CEI row))) table2"

text \<open>\<open>arr[valid_mask]\<close> where the mask is an array computed elementwise from one of the same length.\<close>

definition compress :: "bool list \<Rightarrow> 'a list \<Rightarrow> 'a list" where
  "compress bmask arr = map snd (filter fst (zip bmask arr))"

text \<open>
  \<open>np.argsort\<close> orders floats ascending with NaN last. It is library code: the model
  inserts the indices \<open>0, 1, ...\<close> one by one, each after every index whose key is not
  greater. What NumPy's default sort does with equal keys is not fixed by the program
  text, and no theorem below depends on the order of indices with equal keys.
\<close>

definition np_lt :: "fl \<Rightarrow> fl \<Rightarrow> bool" where
  "np_lt a b = (flt a b \<or> (isnan b \<and> \<not> isnan a))"

fun insert_index :: "fl list \<Rightarrow> nat \<Rightarrow> nat list \<Rightarrow> nat list" where
  "insert_index keys i [] = [i]"
| "insert_index keys i (j # js) =
     (if np_lt (keys ! i) (keys ! j) then i # j # js else j # insert_index keys i js)"

definition argsort :: "fl list \<Rightarrow> nat list" where
  "argsort keys = foldl (\<lambda>acc i. insert_index keys i acc) [] [0..<length keys]"

text \<open>\<open>df.iloc[indices]\<close> and \<open>arr[indices]\<close>: an index out of range raises IndexError.\<close>

definition iloc :: "'a list \<Rightarrow> nat list \<Rightarrow> error + 'a list" where
  "iloc arr indices =
     (if list_all (\<lambda>i. i < length arr) indices then Inr (map (\<lambda>i. arr ! i) indices)
      else Inl IndexError)"

record selection =
  filtered_distances :: "fl list"
  top_records :: "point list"
  top_distances :: "fl list"

text \<open>
  Lines 128 to 153 of \<open>process_forest_metrics\<close>: \<open>None\<close> is the branch that appends
  to \<open>skipped_rows\<close> and continues.
\<close>

definition select_references :: "point \<Rightarrow> point list \<Rightarrow> error + selection option" where
  "select_references row table2 =
     (let distances = distances_of row table2;
          cindex_diffs = cindex_diffs_of row table2;
          valid_mask = map (\<lambda>d. flt d THRESHOLD_DISTANCE) distances;
          filtered_dists = compress valid_mask distances;
          filtered_cindex_diffs = compress valid_mask cindex_diffs;
          filtered_table2 = compress valid_mask table2
      in if length filtered_table2 < MIN_REF_POINTS then Inr None
         else
           let sorted_indices = argsort filtered_cindex_diffs;
               n_top = max MIN_REF_POINTS
                         (nat \<lfloor>real (length filtered_table2) * TOP_PERCENTILE\<rfloor>);
               top_indices = take n_top sorted_indices
           in bind_err (iloc filtered_table2 top_indices) (\<lambda>top_recs.
              bind_err (iloc filtered_dists top_indices) (\<lambda>top_dists.
                Inr (Some \<lparr>filtered_distances = filtered_dists,
                           top_records = top_recs,
                           top_distances = top_dists\<rparr>))))"

section \<open>Result rows and the batch loop\<close>

record result_row =
  r_pointID :: int
  r_X :: fl
  r_Y :: fl
  r_Buffer_type :: fl
  CEI_Diff :: fl
  Nearest_Ref_Distance :: fl
  Ref_Points_Used :: nat
  cells :: row

record skipped_row =
  s_pointID :: int
  Reason :: string

datatype outcome = Skipped skipped_row | Processed result_row

definition target_columns :: "string list" where
  "target_columns = [''Area2000'', ''Area2020'', ''H2000'', ''H2020'', ''PD2000'', ''PD2020'',
                     ''NPP2000'', ''NPP2020'']"

definition trend_vars :: "string list" where
  "trend_vars = [''Area'', ''H'', ''PD'', ''NPP'']"

text \<open>The loop over \<open>target_columns\<close>: four cells per column.\<close>

fun metrics_loop :: "point \<Rightarrow> selection \<Rightarrow> string list \<Rightarrow> row \<Rightarrow> error + row" where
  "metrics_loop row sel [] result = Inr result"
| "metrics_loop row sel (col # cols) result =
     bind_err (inverse_distance_weighting (map (\<lambda>r. metric r col) (top_records sel))
                 (top_distances sel) IDW_POWER) (\<lambda>bg_mean.
       metrics_loop row sel cols
         (result(col @ ''_road'' \<mapsto> metric row col,
                 col @ ''_ref'' \<mapsto> bg_mean,
                 col @ ''_AC'' \<mapsto> fst (impact_scores (metric row col) bg_mean),
                 col @ ''_RC'' \<mapsto> snd (impact_scores (metric row col) bg_mean))))"

text \<open>
  Lines 155 to 201. The keys of \<open>result_row\<close> with a fixed name are record fields; the
  keys built from column names are in \<open>cells\<close>, which is what
  \<open>calculate_temporal_trends\<close> reads (no fixed key ends in \<open>2000_AC\<close> or \<open>2020_AC\<close>).
\<close>

definition score_point :: "point \<Rightarrow> selection \<Rightarrow> error + result_row" where
  "score_point row sel =
     bind_err (inverse_distance_weighting (map CEI (top_records sel))
                 (top_distances sel) IDW_POWER) (\<lambda>bg_cindex.
     bind_err (np_min (filtered_distances sel)) (\<lambda>nearest.
     bind_err (metrics_loop row sel target_columns Map.empty) (\<lambda>result.
     bind_err (calculate_temporal_trends result trend_vars) (\<lambda>temporal_trends.
       Inr \<lparr>r_pointID = pointID row,
            r_X = X row,
            r_Y = Y row,
            r_Buffer_type = Buffer_type row,
            CEI_Diff = (if \<not> isnan bg_cindex then fsub (CEI row) bg_cindex else NaN),
            Nearest_Ref_Distance = nearest,
            Ref_Points_Used = length (top_records sel),
            cells = result ++ temporal_trends\<rparr>))))"

definition process_point :: "point \<Rightarrow> point list \<Rightarrow> error + outcome" where
  "process_point row table2 =
     bind_err (select_references row table2) (\<lambda>sel.
       case sel of
         None \<Rightarrow> Inr (Skipped \<lparr>s_pointID = pointID row,
                               Reason = ''Not enough reference points''\<rparr>)
       | Some s \<Rightarrow> bind_err (score_point row s) (\<lambda>r. Inr (Processed r)))"

text \<open>The loop over \<open>table1.iterrows()\<close>, appending to the two lists.\<close>

fun process_rows ::
  "point list \<Rightarrow> point list \<Rightarrow> result_row list \<Rightarrow> skipped_row list \<Rightarrow>
     error + result_row list \<times> skipped_row list" where
  "process_rows [] table2 result_rows skipped_rows = Inr (result_rows, skipped_rows)"
| "process_rows (row # rest) table2 result_rows skipped_rows =
     (case process_point row table2 of
        Inl e \<Rightarrow> Inl e
      | Inr (Skipped s) \<Rightarrow> process_rows rest table2 result_rows (skipped_rows @ [s])
      | Inr (Processed r) \<Rightarrow> process_rows rest table2 (result_rows @ [r]) skipped_rows)"

definition fle :: "fl \<Rightarrow> fl \<Rightarrow> bool" where
  "fle a b = (flt a b \<or> feq a b)"

text \<open>
  \<open>process_forest_metrics\<close> on the merged table: the two subtables, the emptiness
  check, the loop. Reading, merging and writing the files are outside the model; the
  value returned is what is written to the two output files.
\<close>

definition process_forest_metrics ::
  "point list \<Rightarrow> error + result_row list \<times> skipped_row list" where
  "process_forest_metrics merged_df =
     (let table1 = filter (\<lambda>p. feq (Windowflag p) (Fin 1) \<and> fgt (Buffer_type p) (Fin 1))
                     merged_df;
          table2 = filter (\<lambda>p. fle (Buffer_type p) (Fin 1) \<and>
                                flt (NTL2000 p) (Fin 1) \<and>
                                flt (NTL2020 p) (Fin 1) \<and>
                                flt (fabs (ForestChange p)) (Fin 10) \<and>
                                flt (fabs (Plantations p)) (Fin 10))
                     merged_df
      in if table1 = [] \<or> table2 = [] then Inl EmptySubtable
         else process_rows table1 table2 [] [])"

section \<open>Notions the properties are stated with\<close>

text \<open>The pairs of value and distance whose value passes \<open>is_valid_value\<close>.\<close>

definition valid_pairs :: "fl list \<Rightarrow> fl list \<Rightarrow> (fl \<times> fl) list" where
  "valid_pairs vs ds = filter (\<lambda>p. is_valid_value (fst p)) (zip vs ds)"

text \<open>The part of \<open>inverse_distance_weighting\<close> after the two selections by mask.\<close>

definition idw_on_valid :: "fl list \<Rightarrow> fl list \<Rightarrow> nat \<Rightarrow> fl" where
  "idw_on_valid valid_values valid_distances pw =
     (if valid_values = [] then NaN
      else if fgt (np_sum (idw_weights valid_distances pw)) (Fin 0)
      then fdiv (np_sum (map2 fmul valid_values (idw_weights valid_distances pw)))
             (np_sum (idw_weights valid_distances pw))
      else np_mean valid_values)"

text \<open>A finite number that is not negative: what the distance of two points is.\<close>

definition finite_nonneg :: "fl \<Rightarrow> bool" where
  "finite_nonneg d = (case d of Fin r \<Rightarrow> 0 \<le> r | _ \<Rightarrow> False)"

text \<open>
  The two cells one iteration of the loop of \<open>calculate_temporal_trends\<close> stores, as
  functions of the two AC cells it reads. The test is the code's \<open>is_valid_value\<close>,
  which rejects NaN and also an AC that is numerically equal to -9999.
\<close>

definition stored_AC_trend :: "fl \<Rightarrow> fl \<Rightarrow> fl" where
  "stored_AC_trend ac2000 ac2020 =
     (if is_valid_value ac2000 \<and> is_valid_value ac2020 then fsub ac2020 ac2000 else NaN)"

definition stored_RC_trend :: "fl \<Rightarrow> fl \<Rightarrow> fl" where
  "stored_RC_trend ac2000 ac2020 =
     (if is_valid_value ac2000 \<and> is_valid_value ac2020 \<and>
         \<not> feq (fadd (fabs ac2000) (fabs ac2020)) (Fin 0)
      then fmul (fdiv (fsub ac2020 ac2000) (fadd (fabs ac2000) (fabs ac2020))) (Fin 100)
      else NaN)"

text \<open>The distances of the candidates strictly within the threshold, and their number.\<close>

definition kept_distances :: "point \<Rightarrow> point list \<Rightarrow> fl list" where
  "kept_distances row table2 =
     filter (\<lambda>d. flt d THRESHOLD_DISTANCE) (distances_of row table2)"

definition kept_count :: "point \<Rightarrow> point list \<Rightarrow> nat" where
  "kept_count row table2 = length (kept_distances row table2)"

definition n_top_of :: "nat \<Rightarrow> nat" where
  "n_top_of filtered_count =
     max MIN_REF_POINTS (nat \<lfloor>real filtered_count * TOP_PERCENTILE\<rfloor>)"

definition top_indices_of :: "point \<Rightarrow> point list \<Rightarrow> nat list" where
  "top_indices_of row table2 =
     (let valid_mask = map (\<lambda>d. flt d THRESHOLD_DISTANCE) (distances_of row table2)
      in take (n_top_of (kept_count row table2))
           (argsort (compress valid_mask (cindex_diffs_of row table2))))"

text \<open>
  A small instance on a line: a treatment point at the origin with four candidates at
  3, 4, 5 and 12 metres, and a second treatment point 50004 metres away, for which only
  two of the candidates are strictly within the threshold.
\<close>

definition demo_point :: "int \<Rightarrow> real \<Rightarrow> real \<Rightarrow> point" where
  "demo_point i x c =
     \<lparr>pointID = i, X = Fin x, Y = Fin 0, CEI = Fin c, Windowflag = Fin 1,
      Buffer_type = Fin 2, NTL2000 = Fin 0, NTL2020 = Fin 0, ForestChange = Fin 0,
      Plantations = Fin 0, metric = (\<lambda>col. Fin c)\<rparr>"

definition demo_row :: point where
  "demo_row = demo_point 0 0 (1 / 2)"

definition demo_far :: point where
  "demo_far = demo_point 9 50004 (1 / 2)"

definition demo_table2 :: "point list" where
  "demo_table2 = [demo_point 1 3 (9 / 10), demo_point 2 4 (1 / 2),
                  demo_point 3 5 (3 / 5), demo_point 4 12 (7 / 10)]"

text \<open>Twenty candidates at 1, 2, ..., 20 metres from the origin.\<close>

definition demo_table20 :: "point list" where
  "demo_table20 = map (\<lambda>i. demo_point (int i) (real i) (1 / 2)) [1..<21]"

section \<open>Properties\<close>

subsection \<open>Validity and the selection of valid entries\<close>

lemma is_valid_value_iff: "is_valid_value v \<longleftrightarrow> v \<noteq> NaN \<and> v \<noteq> Fin (- 9999)"
  by (cases v) (auto simp: is_valid_value_def INVALID_VALUES_def)

lemma mask_select_values:
  "length vs = length ds \<Longrightarrow>
   mask_select vs (map is_valid_value vs) = Inr (map fst (valid_pairs vs ds))"
proof (induction vs ds rule: list_induct2)
  case Nil
  then show ?case by (simp add: mask_select_def valid_pairs_def)
next
  case (Cons v vs d ds)
  then show ?case by (auto simp: mask_select_def valid_pairs_def split: if_splits)
qed

lemma mask_select_distances:
  "length vs = length ds \<Longrightarrow>
   mask_select ds (map is_valid_value vs) = Inr (map snd (valid_pairs vs ds))"
proof (induction vs ds rule: list_induct2)
  case Nil
  then show ?case by (simp add: mask_select_def valid_pairs_def)
next
  case (Cons v vs d ds)
  then show ?case by (auto simp: mask_select_def valid_pairs_def split: if_splits)
qed

lemma idw_unfold:
  assumes "length vs = length ds"
  shows "inverse_distance_weighting vs ds pw =
           Inr (idw_on_valid (map fst (valid_pairs vs ds)) (map snd (valid_pairs vs ds)) pw)"
  using mask_select_values [OF assms] mask_select_distances [OF assms]
  by (simp add: inverse_distance_weighting_def idw_on_valid_def Let_def)

lemma valid_pairs_idem:
  "valid_pairs (map fst (valid_pairs vs ds)) (map snd (valid_pairs vs ds)) = valid_pairs vs ds"
  by (simp add: valid_pairs_def zip_map_fst_snd)

text \<open>
  C5. The aggregator, given parallel arrays, never raises: it returns the value it would
  return on the valid entries alone, none of which is NaN or a member of
  \<open>INVALID_VALUES\<close>, and it returns NaN when no value is valid.
\<close>

theorem idw_excludes_invalid:
  assumes "length vs = length ds"
  shows "\<exists>r. inverse_distance_weighting vs ds pw = Inr r \<and>
             inverse_distance_weighting (map fst (valid_pairs vs ds))
               (map snd (valid_pairs vs ds)) pw = Inr r \<and>
             (\<forall>v \<in> set (map fst (valid_pairs vs ds)). \<not> isnan v \<and> v \<notin> set INVALID_VALUES) \<and>
             (filter is_valid_value vs = [] \<longrightarrow> r = NaN)"
proof -
  let ?vp = "valid_pairs vs ds"
  have a: "inverse_distance_weighting vs ds pw = Inr (idw_on_valid (map fst ?vp) (map snd ?vp) pw)"
    by (rule idw_unfold [OF assms])
  have b: "inverse_distance_weighting (map fst ?vp) (map snd ?vp) pw
             = Inr (idw_on_valid (map fst ?vp) (map snd ?vp) pw)"
    using idw_unfold [of "map fst ?vp" "map snd ?vp" pw] by (simp add: valid_pairs_idem)
  have c: "\<forall>v \<in> set (map fst ?vp). \<not> isnan v \<and> v \<notin> set INVALID_VALUES"
    by (auto simp: valid_pairs_def is_valid_value_def)
  have "map fst ?vp = filter is_valid_value vs"
    using assms by (induction vs ds rule: list_induct2) (auto simp: valid_pairs_def)
  then have d: "filter is_valid_value vs = [] \<longrightarrow> idw_on_valid (map fst ?vp) (map snd ?vp) pw = NaN"
    by (simp add: idw_on_valid_def)
  show ?thesis using a b c d by blast
qed

theorem idw_excludes_invalid_witness:
  "length [NaN, Fin (- 9999)] = length [Fin 1, Fin 2] \<and>
   inverse_distance_weighting [NaN, Fin (- 9999)] [Fin 1, Fin 2] 2 = Inr NaN \<and>
   length [Fin 10, NaN, Fin (- 9999)] = length [Fin 1, Fin 2, Fin 3] \<and>
   inverse_distance_weighting [Fin 10, NaN, Fin (- 9999)] [Fin 1, Fin 2, Fin 3] 2
     = inverse_distance_weighting [Fin 10] [Fin 1] 2"
  using idw_excludes_invalid [of "[NaN, Fin (- 9999)]" "[Fin 1, Fin 2]" 2]
    idw_excludes_invalid [of "[Fin 10, NaN, Fin (- 9999)]" "[Fin 1, Fin 2, Fin 3]" 2]
  by (auto simp: is_valid_value_iff valid_pairs_def)

subsection \<open>Weights, the scenario, impact scores\<close>

lemma finite_nonnegE:
  assumes "finite_nonneg d"
  obtains r where "d = Fin r" "0 \<le> r"
  using assms by (cases d) (auto simp: finite_nonneg_def)

lemma fpow_Fin: "fpow (Fin r) n = Fin (r ^ n)"
  by (induction n) simp_all

lemma weight_of_finite_nonneg:
  assumes "finite_nonneg d"
  shows "isinf (fdiv (Fin 1) (fpow d pw)) \<longleftrightarrow> d = Fin 0 \<and> 0 < pw"
    and "finite_nonneg (if isinf (fdiv (Fin 1) (fpow d pw)) then Fin 0 else fdiv (Fin 1) (fpow d pw))"
proof -
  from assms obtain r where r: "d = Fin r" "0 \<le> r" by (rule finite_nonnegE)
  show "isinf (fdiv (Fin 1) (fpow d pw)) \<longleftrightarrow> d = Fin 0 \<and> 0 < pw"
    using r by (simp add: fpow_Fin)
  show "finite_nonneg (if isinf (fdiv (Fin 1) (fpow d pw)) then Fin 0 else fdiv (Fin 1) (fpow d pw))"
    using r by (simp add: fpow_Fin finite_nonneg_def)
qed

lemma idw_weights_finite_nonneg:
  "list_all finite_nonneg ds \<Longrightarrow> list_all finite_nonneg (idw_weights ds pw)"
  by (induction ds) (simp_all add: idw_weights_def weight_of_finite_nonneg(2))

lemma foldl_fadd_finite_nonneg:
  "finite_nonneg a \<Longrightarrow> list_all finite_nonneg ws \<Longrightarrow> finite_nonneg (foldl fadd a ws)"
proof (induction ws arbitrary: a)
  case Nil
  then show ?case by simp
next
  case (Cons w ws)
  from Cons.prems have "finite_nonneg (fadd a w)"
    by (cases a; cases w) (simp_all add: finite_nonneg_def)
  with Cons show ?case by simp
qed

lemma np_sum_finite_nonneg: "list_all finite_nonneg ws \<Longrightarrow> finite_nonneg (np_sum ws)"
  unfolding np_sum_def by (rule foldl_fadd_finite_nonneg) (simp_all add: finite_nonneg_def)

lemma fgt_zero_finite_nonneg: "finite_nonneg t \<Longrightarrow> fgt t (Fin 0) \<longleftrightarrow> t \<noteq> Fin 0"
  by (auto elim!: finite_nonnegE simp: fgt_def)

lemma valid_pairs_distances:
  "list_all P ds \<Longrightarrow> list_all P (map snd (valid_pairs vs ds))"
  by (auto simp: list_all_iff valid_pairs_def dest: set_zip_rightD)

text \<open>
  C4. For distances that are finite and not negative, as the distances of a reference
  subset are, the weight of a valid entry is \<open>1 / distance ^ exponent\<close>, replaced by
  zero where that is infinite, which is at distance zero; every weight is finite and not
  negative; the result is the plain mean of the valid values when the weights sum to
  zero, and the weighted average otherwise.
\<close>

theorem idw_weighting:
  assumes len: "length vs = length ds" and dist: "list_all finite_nonneg ds"
  shows "let valid_values = map fst (valid_pairs vs ds);
             valid_distances = map snd (valid_pairs vs ds);
             weights = idw_weights valid_distances pw
         in weights = map (\<lambda>d. if d = Fin 0 \<and> 0 < pw then Fin 0
                                else fdiv (Fin 1) (fpow d pw)) valid_distances \<and>
            list_all finite_nonneg weights \<and>
            (valid_values \<noteq> [] \<longrightarrow>
               inverse_distance_weighting vs ds pw =
                 Inr (if np_sum weights = Fin 0 then np_mean valid_values
                      else fdiv (np_sum (map2 fmul valid_values weights)) (np_sum weights)))"
proof -
  let ?vv = "map fst (valid_pairs vs ds)"
  let ?vd = "map snd (valid_pairs vs ds)"
  let ?w = "idw_weights ?vd pw"
  have vd: "list_all finite_nonneg ?vd"
    using dist by (rule valid_pairs_distances)
  have w1: "?w = map (\<lambda>d. if d = Fin 0 \<and> 0 < pw then Fin 0
                            else fdiv (Fin 1) (fpow d pw)) ?vd"
    unfolding idw_weights_def map_map
    by (rule map_cong) (use vd in \<open>auto simp: list_all_iff weight_of_finite_nonneg(1)\<close>)
  have w2: "list_all finite_nonneg ?w"
    using vd by (rule idw_weights_finite_nonneg)
  have "fgt (np_sum ?w) (Fin 0) \<longleftrightarrow> np_sum ?w \<noteq> Fin 0"
    using w2 by (intro fgt_zero_finite_nonneg np_sum_finite_nonneg)
  then have w3: "?vv \<noteq> [] \<longrightarrow>
      inverse_distance_weighting vs ds pw =
        Inr (if np_sum ?w = Fin 0 then np_mean ?vv
             else fdiv (np_sum (map2 fmul ?vv ?w)) (np_sum ?w))"
    by (simp add: idw_unfold [OF len] idw_on_valid_def)
  show ?thesis
    unfolding Let_def using w1 w2 w3 by blast
qed

theorem idw_weighting_witness:
  "length [Fin 10, Fin 20] = length [Fin 0, Fin 2] \<and>
   list_all finite_nonneg [Fin 0, Fin 2] \<and>
   idw_weights [Fin 0, Fin 2] 2 = [Fin 0, Fin (1 / 4)] \<and>
   inverse_distance_weighting [Fin 10, Fin 20] [Fin 0, Fin 2] 2 = Inr (Fin 20) \<and>
   inverse_distance_weighting [Fin 10, Fin 20] [Fin 0, Fin 0] 2 = Inr (Fin 15)"
  using idw_weighting [of "[Fin 10, Fin 20]" "[Fin 0, Fin 2]" 2]
    idw_weighting [of "[Fin 10, Fin 20]" "[Fin 0, Fin 0]" 2]
  by (simp add: is_valid_value_iff valid_pairs_def finite_nonneg_def Let_def
      eval_nat_numeral np_sum_def np_mean_def)

text \<open>
  C8, as stated, fails: distances 1000, 2000, 3000 and values 10, 20, 30 with exponent 2
  give \<open>660 / 49\<close>, which is farther than 0.1 from 13.27.
\<close>

theorem idw_scenario_counterexample:
  "inverse_distance_weighting [Fin 10, Fin 20, Fin 30] [Fin 1000, Fin 2000, Fin 3000] 2
     = Inr (Fin (660 / 49)) \<and> \<not> \<bar>660 / 49 - 1327 / 100\<bar> \<le> (1 / 10 :: real)"
  by (simp add: inverse_distance_weighting_def mask_select_def is_valid_value_def
      INVALID_VALUES_def idw_weights_def np_sum_def fgt_def eval_nat_numeral)

text \<open>
  C8, amended: the weights are \<open>1e-6\<close>, \<open>2.5e-7\<close> and \<open>1 / 9e6\<close>, proportional to
  \<open>1 / d\<^sup>2\<close>, and the weighted average is \<open>660 / 49\<close>, between 13.46 and 13.47.
\<close>

theorem idw_scenario:
  "idw_weights [Fin 1000, Fin 2000, Fin 3000] 2
     = [Fin (1 / 1000000), Fin (1 / 4000000), Fin (1 / 9000000)] \<and>
   inverse_distance_weighting [Fin 10, Fin 20, Fin 30] [Fin 1000, Fin 2000, Fin 3000] 2
     = Inr (Fin (660 / 49)) \<and>
   (1346 / 100 :: real) < 660 / 49 \<and> (660 / 49 :: real) < 1347 / 100"
  by (simp add: inverse_distance_weighting_def mask_select_def is_valid_value_def
      INVALID_VALUES_def idw_weights_def np_sum_def fgt_def eval_nat_numeral)

lemma ratio_bound:
  fixes x y :: real
  assumes "\<bar>y\<bar> + \<bar>x\<bar> \<noteq> 0"
  shows "\<bar>(x - y) / (\<bar>y\<bar> + \<bar>x\<bar>)\<bar> \<le> 1"
proof -
  have pos: "0 < \<bar>y\<bar> + \<bar>x\<bar>" using assms by arith
  have "\<bar>x - y\<bar> \<le> \<bar>y\<bar> + \<bar>x\<bar>" by arith
  then show ?thesis using pos by (simp add: abs_divide)
qed

lemma fadd_commute: "fadd a b = fadd b a"
  by (cases a; cases b) simp_all

text \<open>
  C6. With both operands valid, AC is treatment minus background and RC is AC divided by
  the sum of the absolute values, times 100, undefined when that sum is zero; with an
  invalid operand both are undefined; a defined RC lies between -200 and 200; treatment
  10 against background 0 gives AC 10 and RC 100.
\<close>

theorem impact_scores_spec:
  "(is_valid_value road \<and> is_valid_value bg \<longrightarrow>
      fst (impact_scores road bg) = fsub road bg \<and>
      (feq (fadd (fabs road) (fabs bg)) (Fin 0) \<longrightarrow> snd (impact_scores road bg) = NaN) \<and>
      (\<not> feq (fadd (fabs road) (fabs bg)) (Fin 0) \<longrightarrow>
         snd (impact_scores road bg) =
           fmul (fdiv (fsub road bg) (fadd (fabs road) (fabs bg))) (Fin 100))) \<and>
   (\<not> (is_valid_value road \<and> is_valid_value bg) \<longrightarrow> impact_scores road bg = (NaN, NaN)) \<and>
   (snd (impact_scores road bg) \<noteq> NaN \<longrightarrow>
      (\<exists>r. snd (impact_scores road bg) = Fin r \<and> - 200 \<le> r \<and> r \<le> 200)) \<and>
   impact_scores (Fin 10) (Fin 0) = (Fin 10, Fin 100)"
proof -
  have a: "is_valid_value road \<and> is_valid_value bg \<longrightarrow>
      fst (impact_scores road bg) = fsub road bg \<and>
      (feq (fadd (fabs road) (fabs bg)) (Fin 0) \<longrightarrow> snd (impact_scores road bg) = NaN) \<and>
      (\<not> feq (fadd (fabs road) (fabs bg)) (Fin 0) \<longrightarrow>
         snd (impact_scores road bg) =
           fmul (fdiv (fsub road bg) (fadd (fabs road) (fabs bg))) (Fin 100))"
    by (simp add: impact_scores_def Let_def fadd_commute [of "fabs bg"])
  have b: "\<not> (is_valid_value road \<and> is_valid_value bg) \<longrightarrow> impact_scores road bg = (NaN, NaN)"
    by (simp add: impact_scores_def)
  have c: "snd (impact_scores road bg) \<noteq> NaN \<longrightarrow>
      (\<exists>r. snd (impact_scores road bg) = Fin r \<and> - 200 \<le> r \<and> r \<le> 200)"
  proof (cases road; cases bg)
    fix x y assume xy: "road = Fin x" "bg = Fin y"
    show ?thesis
    proof (cases "\<bar>y\<bar> + \<bar>x\<bar> = 0")
      case True
      then have "x = 0" "y = 0" by arith+
      then show ?thesis using xy by (simp add: impact_scores_def Let_def feq_def)
    next
      case False
      define q where "q = (x - y) / (\<bar>y\<bar> + \<bar>x\<bar>)"
      have "\<bar>q\<bar> \<le> 1" unfolding q_def by (rule ratio_bound [OF False])
      then have "- 200 \<le> q * 100 \<and> q * 100 \<le> 200" by arith
      then have "- 200 \<le> (x - y) / (\<bar>y\<bar> + \<bar>x\<bar>) * 100 \<and> (x - y) / (\<bar>y\<bar> + \<bar>x\<bar>) * 100 \<le> 200"
        unfolding q_def .
      then show ?thesis using xy False
        by (simp add: impact_scores_def Let_def feq_def fsub_def)
    qed
  qed (simp_all add: impact_scores_def Let_def feq_def fsub_def is_valid_value_iff)
  have d: "impact_scores (Fin 10) (Fin 0) = (Fin 10, Fin 100)"
    by (simp add: impact_scores_def Let_def feq_def fsub_def is_valid_value_iff)
  show ?thesis using a b c d by blast
qed

theorem impact_scores_spec_witness:
  "is_valid_value (Fin 10) \<and> is_valid_value (Fin 0) \<and>
   \<not> feq (fadd (fabs (Fin 10)) (fabs (Fin 0))) (Fin 0) \<and>
   impact_scores (Fin 10) (Fin 0) = (Fin 10, Fin 100) \<and>
   \<not> is_valid_value NaN \<and> impact_scores (Fin 5) NaN = (NaN, NaN) \<and>
   feq (fadd (fabs (Fin 0)) (fabs (Fin 0))) (Fin 0) \<and>
   impact_scores (Fin 0) (Fin 0) = (Fin 0, NaN)"
  using impact_scores_spec [of "Fin 10" "Fin 0"] impact_scores_spec [of "Fin 5" NaN]
    impact_scores_spec [of "Fin 0" "Fin 0"]
  by (simp add: is_valid_value_iff feq_def fsub_def prod_eq_iff)

subsection \<open>Temporal trends\<close>

lemma base_var_names:
  "base_var_of ''Area'' = ''Area''" "base_var_of ''H'' = ''H''"
  "base_var_of ''PD'' = ''PD''" "base_var_of ''NPP'' = ''NPP''"
  by (simp_all add: base_var_of_def endswith_def)

lemma denominator_positive_iff:
  "is_valid_value a \<Longrightarrow> is_valid_value b \<Longrightarrow>
   fgt (fadd (fabs a) (fabs b)) (Fin 0) \<longleftrightarrow> \<not> feq (fadd (fabs a) (fabs b)) (Fin 0)"
  by (cases a; cases b) (auto simp: fgt_def feq_def is_valid_value_iff)

lemma trend_entry_present:
  assumes "row (base_var_of var @ ''2000_AC'') = Some ac2000"
    and "row (base_var_of var @ ''2020_AC'') = Some ac2020"
  shows "trend_entry row var trends =
           Inr (trends(base_var_of var @ ''_AC_trend'' \<mapsto> stored_AC_trend ac2000 ac2020,
                       base_var_of var @ ''_RC_trend'' \<mapsto> stored_RC_trend ac2000 ac2020))"
  using assms
  by (simp add: trend_entry_def Let_def stored_AC_trend_def stored_RC_trend_def
      denominator_positive_iff)

lemma trend_entry_shape:
  assumes "trend_entry row var trends = Inr trends'"
  shows "\<exists>a r. trends' = trends(base_var_of var @ ''_AC_trend'' \<mapsto> a,
                                 base_var_of var @ ''_RC_trend'' \<mapsto> r)"
  using assms
  by (auto simp: trend_entry_def Let_def split: option.splits if_splits)

lemma trend_keys_distinct:
  "b @ ''_AC_trend'' = b' @ ''_AC_trend'' \<longleftrightarrow> b = b'"
  "b @ ''_RC_trend'' = b' @ ''_RC_trend'' \<longleftrightarrow> b = b'"
  "b @ ''_AC_trend'' \<noteq> b' @ ''_RC_trend''"
  "b @ ''_RC_trend'' \<noteq> b' @ ''_AC_trend''"
  by (simp_all add: append_eq_append_conv)

lemma trends_loop_keeps:
  assumes "trends_loop row vars trends = Inr result"
    and "row (b @ ''2000_AC'') = Some ac2000"
    and "row (b @ ''2020_AC'') = Some ac2020"
    and "trends (b @ ''_AC_trend'') = Some (stored_AC_trend ac2000 ac2020)"
    and "trends (b @ ''_RC_trend'') = Some (stored_RC_trend ac2000 ac2020)"
  shows "result (b @ ''_AC_trend'') = Some (stored_AC_trend ac2000 ac2020) \<and>
         result (b @ ''_RC_trend'') = Some (stored_RC_trend ac2000 ac2020)"
  using assms
proof (induction vars arbitrary: trends)
  case Nil
  then show ?case by simp
next
  case (Cons v vars)
  from Cons.prems(1) obtain t where t: "trend_entry row v trends = Inr t"
    and rest: "trends_loop row vars t = Inr result"
    by (auto split: sum.splits)
  have "t (b @ ''_AC_trend'') = Some (stored_AC_trend ac2000 ac2020) \<and>
        t (b @ ''_RC_trend'') = Some (stored_RC_trend ac2000 ac2020)"
  proof (cases "base_var_of v = b")
    case True
    with Cons.prems(2,3) t trend_entry_present [of row v ac2000 ac2020 trends]
    show ?thesis by (auto simp: trend_keys_distinct)
  next
    case False
    from trend_entry_shape [OF t] False Cons.prems(4,5)
    show ?thesis by (auto simp: trend_keys_distinct)
  qed
  with Cons.IH [OF rest Cons.prems(2,3)] show ?case by blast
qed

lemma trends_loop_entries:
  assumes "trends_loop row vars trends = Inr result"
    and "v \<in> set vars"
    and "row (base_var_of v @ ''2000_AC'') = Some ac2000"
    and "row (base_var_of v @ ''2020_AC'') = Some ac2020"
  shows "result (base_var_of v @ ''_AC_trend'') = Some (stored_AC_trend ac2000 ac2020) \<and>
         result (base_var_of v @ ''_RC_trend'') = Some (stored_RC_trend ac2000 ac2020)"
  using assms
proof (induction vars arbitrary: trends)
  case Nil
  then show ?case by simp
next
  case (Cons u vars)
  from Cons.prems(1) obtain t where t: "trend_entry row u trends = Inr t"
    and rest: "trends_loop row vars t = Inr result"
    by (auto split: sum.splits)
  show ?case
  proof (cases "base_var_of u = base_var_of v")
    case True
    with t Cons.prems(3,4) trend_entry_present [of row u ac2000 ac2020 trends]
    have "t (base_var_of v @ ''_AC_trend'') = Some (stored_AC_trend ac2000 ac2020)"
      and "t (base_var_of v @ ''_RC_trend'') = Some (stored_RC_trend ac2000 ac2020)"
      by (auto simp: trend_keys_distinct)
    with trends_loop_keeps [OF rest Cons.prems(3,4)] show ?thesis by blast
  next
    case False
    with Cons.prems(2) have "v \<in> set vars" by auto
    from Cons.IH [OF rest this Cons.prems(3,4)] show ?thesis .
  qed
qed

lemma trends_loop_total:
  assumes "\<forall>v \<in> set vars. row (base_var_of v @ ''2000_AC'') \<noteq> None \<and>
                           row (base_var_of v @ ''2020_AC'') \<noteq> None"
  shows "\<exists>result. trends_loop row vars trends = Inr result"
  using assms
proof (induction vars arbitrary: trends)
  case Nil
  then show ?case by simp
next
  case (Cons v vars)
  then obtain a b where "row (base_var_of v @ ''2000_AC'') = Some a"
    "row (base_var_of v @ ''2020_AC'') = Some b" by auto
  from trend_entry_present [OF this] Cons show ?case by simp
qed

text \<open>
  C7, as stated, fails. An absolute change of -9999 is a defined number: treatment 1
  against background 10000 gives it. With \<open>AC_2000 = -9999\<close> and \<open>AC_2020 = 1\<close> the
  claim gives \<open>AC_trend = 10000\<close>; the code stores NaN for both trends, because its
  validity test rejects the number -9999 as a sentinel.
\<close>

theorem temporal_trends_counterexample:
  "fst (impact_scores (Fin 1) (Fin 10000)) = Fin (- 9999) \<and>
   fsub (Fin 1) (Fin (- 9999)) = Fin 10000 \<and>
   calculate_temporal_trends [''Area2000_AC'' \<mapsto> Fin (- 9999), ''Area2020_AC'' \<mapsto> Fin 1]
       [''Area'']
     = Inr [''Area_AC_trend'' \<mapsto> NaN, ''Area_RC_trend'' \<mapsto> NaN]"
  by (simp add: impact_scores_def calculate_temporal_trends_def trend_entry_def
      base_var_names is_valid_value_iff fsub_def Let_def)

text \<open>
  C7, amended. For every tracked variable whose two AC cells are present in the row, the
  function returns a dictionary where, if both ACs pass the validity test (neither NaN
  nor equal to -9999), \<open>AC_trend\<close> is \<open>AC_2020 - AC_2000\<close> and \<open>RC_trend\<close> is that
  difference over \<open>|AC_2000| + |AC_2020|\<close>, times 100, or NaN when that denominator is
  zero; if either AC fails the test, both trends are NaN.
\<close>

theorem temporal_trends_spec:
  assumes "\<forall>v \<in> set vars. row (base_var_of v @ ''2000_AC'') \<noteq> None \<and>
                           row (base_var_of v @ ''2020_AC'') \<noteq> None"
  shows "\<exists>trends. calculate_temporal_trends row vars = Inr trends \<and>
           (\<forall>v \<in> set vars. \<forall>ac2000 ac2020.
              row (base_var_of v @ ''2000_AC'') = Some ac2000 \<longrightarrow>
              row (base_var_of v @ ''2020_AC'') = Some ac2020 \<longrightarrow>
              trends (base_var_of v @ ''_AC_trend'') =
                Some (if is_valid_value ac2000 \<and> is_valid_value ac2020
                      then fsub ac2020 ac2000 else NaN) \<and>
              trends (base_var_of v @ ''_RC_trend'') =
                Some (if is_valid_value ac2000 \<and> is_valid_value ac2020 \<and>
                         \<not> feq (fadd (fabs ac2000) (fabs ac2020)) (Fin 0)
                      then fmul (fdiv (fsub ac2020 ac2000)
                                   (fadd (fabs ac2000) (fabs ac2020))) (Fin 100)
                      else NaN))"
proof -
  from trends_loop_total [OF assms] obtain trends
    where t: "trends_loop row vars Map.empty = Inr trends" by blast
  have "\<forall>v \<in> set vars. \<forall>ac2000 ac2020.
          row (base_var_of v @ ''2000_AC'') = Some ac2000 \<longrightarrow>
          row (base_var_of v @ ''2020_AC'') = Some ac2020 \<longrightarrow>
          trends (base_var_of v @ ''_AC_trend'') = Some (stored_AC_trend ac2000 ac2020) \<and>
          trends (base_var_of v @ ''_RC_trend'') = Some (stored_RC_trend ac2000 ac2020)"
    using trends_loop_entries [OF t] by blast
  with t show ?thesis
    unfolding calculate_temporal_trends_def stored_AC_trend_def stored_RC_trend_def by blast
qed

theorem temporal_trends_spec_witness:
  "\<exists>trends. calculate_temporal_trends
       [''Area2000_AC'' \<mapsto> Fin 2, ''Area2020_AC'' \<mapsto> Fin 6, ''H2000_AC'' \<mapsto> NaN,
        ''H2020_AC'' \<mapsto> Fin 1] [''Area'', ''H''] = Inr trends \<and>
     trends ''Area_AC_trend'' = Some (Fin 4) \<and> trends ''Area_RC_trend'' = Some (Fin 50) \<and>
     trends ''H_AC_trend'' = Some NaN \<and> trends ''H_RC_trend'' = Some NaN"
  using temporal_trends_spec [of "[''Area'', ''H'']"
      "[''Area2000_AC'' \<mapsto> Fin 2, ''Area2020_AC'' \<mapsto> Fin 6, ''H2000_AC'' \<mapsto> NaN,
        ''H2020_AC'' \<mapsto> Fin 1]"]
  by (simp add: base_var_names is_valid_value_iff feq_def fsub_def)

subsection \<open>argsort\<close>

lemma insert_index_length: "length (insert_index ks i js) = Suc (length js)"
  by (induction js) simp_all

lemma insert_index_set: "set (insert_index ks i js) = insert i (set js)"
  by (induction js) auto

lemma foldl_insert_index_length:
  "length (foldl (\<lambda>acc i. insert_index ks i acc) acc idx) = length acc + length idx"
  by (induction idx arbitrary: acc) (simp_all add: insert_index_length)

lemma foldl_insert_index_set:
  "set (foldl (\<lambda>acc i. insert_index ks i acc) acc idx) = set acc \<union> set idx"
  by (induction idx arbitrary: acc) (simp_all add: insert_index_set)

lemma argsort_length: "length (argsort ks) = length ks"
  by (simp add: argsort_def foldl_insert_index_length)

lemma argsort_set: "set (argsort ks) = {0..<length ks}"
  by (simp add: argsort_def foldl_insert_index_set)

subsection \<open>Masks\<close>

lemma compress_length:
  "length xs = length ys \<Longrightarrow> length (compress (map P xs) ys) = length (filter P xs)"
  by (induction xs ys rule: list_induct2) (simp_all add: compress_def)

lemma compress_self: "compress (map P xs) xs = filter P xs"
  by (induction xs) (simp_all add: compress_def)

lemma compress_length_kept:
  assumes "length xs = length table2"
  shows "length (compress (map (\<lambda>d. flt d THRESHOLD_DISTANCE) (distances_of row table2)) xs)
           = kept_count row table2"
proof -
  have "length (distances_of row table2) = length xs"
    using assms by (simp add: distances_of_def)
  from compress_length [OF this] show ?thesis
    by (simp add: kept_count_def kept_distances_def)
qed

lemma iloc_in_range:
  "set idx \<subseteq> {0..<length arr} \<Longrightarrow> iloc arr idx = Inr (map (\<lambda>i. arr ! i) idx)"
  by (auto simp: iloc_def list_all_iff)

lemma n_top_le:
  assumes "MIN_REF_POINTS \<le> k"
  shows "n_top_of k \<le> k"
proof -
  have "real_of_int \<lfloor>real k * TOP_PERCENTILE\<rfloor> \<le> real k * TOP_PERCENTILE" by (rule of_int_floor_le)
  also have "\<dots> \<le> real k" by (simp add: TOP_PERCENTILE_def)
  finally have "\<lfloor>real k * TOP_PERCENTILE\<rfloor> \<le> int k" by linarith
  then have "nat \<lfloor>real k * TOP_PERCENTILE\<rfloor> \<le> k" by linarith
  with assms show ?thesis by (simp add: n_top_of_def)
qed

lemma top_indices_length:
  assumes "MIN_REF_POINTS \<le> kept_count row table2"
  shows "length (top_indices_of row table2) = n_top_of (kept_count row table2)"
  using n_top_le [OF assms]
  by (simp add: top_indices_of_def Let_def argsort_length compress_length_kept cindex_diffs_of_def)

lemma top_indices_range:
  "set (top_indices_of row table2) \<subseteq> {0..<kept_count row table2}"
proof -
  have "set (top_indices_of row table2)
          \<subseteq> set (argsort (compress (map (\<lambda>d. flt d THRESHOLD_DISTANCE) (distances_of row table2))
                            (cindex_diffs_of row table2)))"
    by (simp add: top_indices_of_def Let_def set_take_subset)
  then show ?thesis
    by (simp add: argsort_set compress_length_kept cindex_diffs_of_def)
qed

lemma select_references_eq:
  "select_references row table2 =
     (if kept_count row table2 < MIN_REF_POINTS then Inr None
      else Inr (Some \<lparr>filtered_distances = kept_distances row table2,
                      top_records = map (\<lambda>i. compress (map (\<lambda>d. flt d THRESHOLD_DISTANCE)
                                                   (distances_of row table2)) table2 ! i)
                                      (top_indices_of row table2),
                      top_distances = map (\<lambda>i. kept_distances row table2 ! i)
                                        (top_indices_of row table2)\<rparr>))"
proof -
  let ?m = "map (\<lambda>d. flt d THRESHOLD_DISTANCE) (distances_of row table2)"
  have l1: "length (compress ?m table2) = kept_count row table2"
    by (rule compress_length_kept) simp
  have fd: "compress ?m (distances_of row table2) = kept_distances row table2"
    by (simp add: compress_self kept_distances_def)
  have i1: "iloc (compress ?m table2) (top_indices_of row table2)
              = Inr (map (\<lambda>i. compress ?m table2 ! i) (top_indices_of row table2))"
    by (rule iloc_in_range) (simp add: l1 top_indices_range)
  have i2: "iloc (kept_distances row table2) (top_indices_of row table2)
              = Inr (map (\<lambda>i. kept_distances row table2 ! i) (top_indices_of row table2))"
    by (rule iloc_in_range) (use top_indices_range in \<open>simp add: kept_count_def\<close>)
  have ti: "take (max MIN_REF_POINTS (nat \<lfloor>real (kept_count row table2) * TOP_PERCENTILE\<rfloor>))
              (argsort (compress ?m (cindex_diffs_of row table2))) = top_indices_of row table2"
    by (simp add: top_indices_of_def n_top_of_def)
  show ?thesis
    unfolding select_references_def Let_def l1 fd ti i1 i2 bind_err_def by simp
qed

subsection \<open>Minimum\<close>

lemma not_flt_trans:
  "\<not> isnan a \<Longrightarrow> \<not> isnan b \<Longrightarrow> \<not> isnan c \<Longrightarrow> \<not> flt b a \<Longrightarrow> \<not> flt c b \<Longrightarrow> \<not> flt c a"
  by (cases a; cases b; cases c) simp_all

lemma not_flt_refl: "\<not> flt a a"
  by (cases a) simp_all

lemma foldl_fmin2:
  assumes "\<not> isnan a" and "\<forall>x \<in> set xs. \<not> isnan x"
  shows "\<not> isnan (foldl fmin2 a xs) \<and> foldl fmin2 a xs \<in> set (a # xs) \<and>
         \<not> flt a (foldl fmin2 a xs) \<and> (\<forall>x \<in> set xs. \<not> flt x (foldl fmin2 a xs))"
  using assms
proof (induction xs arbitrary: a)
  case Nil
  then show ?case by (simp add: not_flt_refl)
next
  case (Cons x xs)
  let ?b = "fmin2 a x"
  let ?m = "foldl fmin2 ?b xs"
  from Cons.prems have nx: "\<not> isnan x" and nxs: "\<forall>y \<in> set xs. \<not> isnan y" by simp_all
  have nb: "\<not> isnan ?b" using Cons.prems(1) nx by (simp add: fmin2_def)
  have b_in: "?b = a \<or> ?b = x" using Cons.prems(1) nx by (simp add: fmin2_def)
  have b_le_a: "\<not> flt a ?b" using Cons.prems(1) nx
    by (cases a; cases x) (auto simp: fmin2_def)
  have b_le_x: "\<not> flt x ?b" using Cons.prems(1) nx
    by (cases a; cases x) (auto simp: fmin2_def)
  from Cons.IH [OF nb nxs]
  have m: "\<not> isnan ?m" "?m \<in> set (?b # xs)" "\<not> flt ?b ?m" "\<forall>y \<in> set xs. \<not> flt y ?m"
    by blast+
  have "\<not> flt a ?m"
    by (rule not_flt_trans [OF m(1) nb Cons.prems(1) m(3) b_le_a])
  moreover have "\<not> flt x ?m"
    by (rule not_flt_trans [OF m(1) nb nx m(3) b_le_x])
  moreover have "?m \<in> set (a # x # xs)" using m(2) b_in by auto
  ultimately show ?case using m(1,4) by simp
qed

lemma np_min_nonempty:
  assumes "xs \<noteq> []" and "\<forall>x \<in> set xs. \<not> isnan x"
  shows "\<exists>m. np_min xs = Inr m \<and> m \<in> set xs \<and> (\<forall>x \<in> set xs. \<not> flt x m)"
proof -
  from assms(1) obtain a ys where xs: "xs = a # ys" by (cases xs) auto
  with assms(2) have "\<not> isnan a" "\<forall>x \<in> set ys. \<not> isnan x" by simp_all
  from foldl_fmin2 [OF this] show ?thesis unfolding xs by simp
qed

lemma flt_not_nan: "flt d t \<Longrightarrow> \<not> isnan d"
  by (cases d) simp_all

lemma kept_distances_not_nan: "\<forall>d \<in> set (kept_distances row table2). \<not> isnan d"
  by (auto simp: kept_distances_def dest: flt_not_nan)

subsection \<open>The loop over the target columns\<close>

lemma metrics_loop_total:
  assumes "length (top_records sel) = length (top_distances sel)"
  shows "\<exists>result. metrics_loop row sel cols acc = Inr result \<and>
           (\<forall>c \<in> set cols. result (c @ ''_AC'') \<noteq> None) \<and>
           (\<forall>k. acc k \<noteq> None \<longrightarrow> result k \<noteq> None)"
proof (induction cols arbitrary: acc)
  case Nil
  then show ?case by simp
next
  case (Cons col cols)
  let ?vals = "map (\<lambda>r. metric r col) (top_records sel)"
  have "length ?vals = length (top_distances sel)" using assms by simp
  from idw_unfold [OF this] obtain bg
    where bg: "inverse_distance_weighting ?vals (top_distances sel) IDW_POWER = Inr bg"
    by blast
  let ?acc = "acc(col @ ''_road'' \<mapsto> metric row col,
                  col @ ''_ref'' \<mapsto> bg,
                  col @ ''_AC'' \<mapsto> fst (impact_scores (metric row col) bg),
                  col @ ''_RC'' \<mapsto> snd (impact_scores (metric row col) bg))"
  from Cons.IH [of ?acc] obtain result
    where r: "metrics_loop row sel cols ?acc = Inr result"
      "\<forall>c \<in> set cols. result (c @ ''_AC'') \<noteq> None"
      "\<forall>k. ?acc k \<noteq> None \<longrightarrow> result k \<noteq> None"
    by blast
  have "metrics_loop row sel (col # cols) acc = Inr result"
    using bg r(1) by (simp add: bind_err_def)
  moreover have "result (col @ ''_AC'') \<noteq> None"
    using r(3) by (simp add: append_eq_append_conv)
  moreover have "\<forall>k. acc k \<noteq> None \<longrightarrow> result k \<noteq> None"
  proof (intro allI impI)
    fix k assume "acc k \<noteq> None"
    then have "?acc k \<noteq> None" by simp
    with r(3) show "result k \<noteq> None" by blast
  qed
  ultimately show ?case using r(2) by simp
qed

lemma trend_keys_present:
  assumes "\<forall>c \<in> set target_columns. result (c @ ''_AC'') \<noteq> None"
  shows "\<forall>v \<in> set trend_vars. result (base_var_of v @ ''2000_AC'') \<noteq> None \<and>
                                result (base_var_of v @ ''2020_AC'') \<noteq> None"
proof -
  have k: "c \<in> set target_columns \<Longrightarrow> result (c @ ''_AC'') \<noteq> None" for c
    using assms by blast
  have "result ''Area2000_AC'' \<noteq> None" using k [of "''Area2000''"] by (simp add: target_columns_def)
  moreover have "result ''Area2020_AC'' \<noteq> None" using k [of "''Area2020''"] by (simp add: target_columns_def)
  moreover have "result ''H2000_AC'' \<noteq> None" using k [of "''H2000''"] by (simp add: target_columns_def)
  moreover have "result ''H2020_AC'' \<noteq> None" using k [of "''H2020''"] by (simp add: target_columns_def)
  moreover have "result ''PD2000_AC'' \<noteq> None" using k [of "''PD2000''"] by (simp add: target_columns_def)
  moreover have "result ''PD2020_AC'' \<noteq> None" using k [of "''PD2020''"] by (simp add: target_columns_def)
  moreover have "result ''NPP2000_AC'' \<noteq> None" using k [of "''NPP2000''"] by (simp add: target_columns_def)
  moreover have "result ''NPP2020_AC'' \<noteq> None" using k [of "''NPP2020''"] by (simp add: target_columns_def)
  ultimately show ?thesis
    by (simp add: trend_vars_def base_var_names)
qed

lemma score_point_total:
  assumes "length (top_records sel) = length (top_distances sel)"
    and "filtered_distances sel \<noteq> []"
    and "\<forall>d \<in> set (filtered_distances sel). \<not> isnan d"
  shows "\<exists>r. score_point row sel = Inr r \<and> r_pointID r = pointID row \<and>
             Ref_Points_Used r = length (top_records sel) \<and>
             np_min (filtered_distances sel) = Inr (Nearest_Ref_Distance r)"
proof -
  have "length (map CEI (top_records sel)) = length (top_distances sel)"
    using assms(1) by simp
  from idw_unfold [OF this] obtain bg
    where bg: "inverse_distance_weighting (map CEI (top_records sel)) (top_distances sel)
                 IDW_POWER = Inr bg"
    by blast
  from np_min_nonempty [OF assms(2,3)] obtain nearest
    where nearest: "np_min (filtered_distances sel) = Inr nearest" by blast
  from metrics_loop_total [OF assms(1)] obtain result
    where result: "metrics_loop row sel target_columns Map.empty = Inr result"
      and keys: "\<forall>c \<in> set target_columns. result (c @ ''_AC'') \<noteq> None"
    by blast
  from trends_loop_total [OF trend_keys_present [OF keys]] obtain trends
    where trends: "calculate_temporal_trends result trend_vars = Inr trends"
    unfolding calculate_temporal_trends_def by blast
  show ?thesis
    by (simp add: score_point_def bind_err_def bg nearest result trends)
qed

subsection \<open>Reference records and their distances\<close>

lemma distances_of_euclidean:
  "distances_of row table2 =
     map (\<lambda>c. euclidean_distance (X row) (Y row) (X c) (Y c)) table2"
  by (simp add: distances_of_def euclidean_distance_def)

lemma kept_records_filter:
  "compress (map (\<lambda>d. flt d THRESHOLD_DISTANCE) (distances_of row table2)) table2 =
     filter (\<lambda>c. flt (euclidean_distance (X row) (Y row) (X c) (Y c)) THRESHOLD_DISTANCE) table2"
  using compress_self
    [of "\<lambda>c. flt (euclidean_distance (X row) (Y row) (X c) (Y c)) THRESHOLD_DISTANCE" table2]
  by (simp add: distances_of_euclidean comp_def)

lemma kept_distances_map:
  "kept_distances row table2 =
     map (\<lambda>c. euclidean_distance (X row) (Y row) (X c) (Y c))
       (filter (\<lambda>c. flt (euclidean_distance (X row) (Y row) (X c) (Y c)) THRESHOLD_DISTANCE)
          table2)"
  by (simp add: kept_distances_def distances_of_euclidean filter_map comp_def)

lemma kept_pair_at:
  assumes "i < kept_count row table2"
  shows "compress (map (\<lambda>d. flt d THRESHOLD_DISTANCE) (distances_of row table2)) table2 ! i
           \<in> set table2 \<and>
         kept_distances row table2 ! i =
           euclidean_distance (X row) (Y row)
             (X (compress (map (\<lambda>d. flt d THRESHOLD_DISTANCE) (distances_of row table2))
                   table2 ! i))
             (Y (compress (map (\<lambda>d. flt d THRESHOLD_DISTANCE) (distances_of row table2))
                   table2 ! i)) \<and>
         flt (kept_distances row table2 ! i) THRESHOLD_DISTANCE"
proof -
  let ?P = "\<lambda>c. flt (euclidean_distance (X row) (Y row) (X c) (Y c)) THRESHOLD_DISTANCE"
  let ?recs = "filter ?P table2"
  have len: "i < length ?recs"
    using assms by (simp add: kept_count_def kept_distances_map)
  then have mem: "?recs ! i \<in> set ?recs" by (rule nth_mem)
  then have a: "?recs ! i \<in> set table2" and b: "?P (?recs ! i)" by simp_all
  have c: "kept_distances row table2 ! i =
      euclidean_distance (X row) (Y row) (X (?recs ! i)) (Y (?recs ! i))"
    using len by (simp add: kept_distances_map)
  from a b c show ?thesis by (simp add: kept_records_filter)
qed

lemma reference_records_paired:
  assumes "select_references row table2 = Inr (Some sel)"
  shows "list_all2 (\<lambda>c d. c \<in> set table2 \<and>
                          d = euclidean_distance (X row) (Y row) (X c) (Y c) \<and>
                          flt d THRESHOLD_DISTANCE)
           (top_records sel) (top_distances sel)"
proof -
  from assms have sel: "sel = \<lparr>filtered_distances = kept_distances row table2,
      top_records = map (\<lambda>i. compress (map (\<lambda>d. flt d THRESHOLD_DISTANCE)
                                   (distances_of row table2)) table2 ! i)
                      (top_indices_of row table2),
      top_distances = map (\<lambda>i. kept_distances row table2 ! i) (top_indices_of row table2)\<rparr>"
    by (simp add: select_references_eq split: if_splits)
  let ?recs = "compress (map (\<lambda>d. flt d THRESHOLD_DISTANCE) (distances_of row table2)) table2"
  have "i \<in> set (top_indices_of row table2) \<Longrightarrow> i < kept_count row table2" for i
    using top_indices_range [of row table2] by auto
  then have "\<forall>i \<in> set (top_indices_of row table2).
      ?recs ! i \<in> set table2 \<and>
      kept_distances row table2 ! i =
        euclidean_distance (X row) (Y row) (X (?recs ! i)) (Y (?recs ! i)) \<and>
      flt (kept_distances row table2 ! i) THRESHOLD_DISTANCE"
    using kept_pair_at [of _ row table2] by blast
  then have "list_all2 (\<lambda>c d. c \<in> set table2 \<and>
                          d = euclidean_distance (X row) (Y row) (X c) (Y c) \<and>
                          flt d THRESHOLD_DISTANCE)
      (map (\<lambda>i. ?recs ! i) (top_indices_of row table2))
      (map (\<lambda>i. kept_distances row table2 ! i) (top_indices_of row table2))"
    unfolding list_all2_map1 list_all2_map2 list_all2_same .
  then show ?thesis by (subst (1 2) sel) simp
qed

subsection \<open>One treatment point\<close>

lemma process_point_skipped:
  assumes "kept_count row table2 < MIN_REF_POINTS"
  shows "process_point row table2 =
           Inr (Skipped \<lparr>s_pointID = pointID row, Reason = ''Not enough reference points''\<rparr>)"
  using assms by (simp add: process_point_def select_references_eq bind_err_def)

lemma process_point_processed:
  assumes "\<not> kept_count row table2 < MIN_REF_POINTS"
  shows "\<exists>sel r. select_references row table2 = Inr (Some sel) \<and>
           filtered_distances sel = kept_distances row table2 \<and>
           length (top_records sel) = n_top_of (kept_count row table2) \<and>
           length (top_distances sel) = n_top_of (kept_count row table2) \<and>
           process_point row table2 = Inr (Processed r) \<and>
           score_point row sel = Inr r \<and>
           r_pointID r = pointID row \<and>
           Ref_Points_Used r = length (top_records sel) \<and>
           np_min (kept_distances row table2) = Inr (Nearest_Ref_Distance r)"
proof -
  let ?m = "map (\<lambda>d. flt d THRESHOLD_DISTANCE) (distances_of row table2)"
  let ?sel = "\<lparr>filtered_distances = kept_distances row table2,
               top_records = map (\<lambda>i. compress ?m table2 ! i) (top_indices_of row table2),
               top_distances = map (\<lambda>i. kept_distances row table2 ! i)
                                 (top_indices_of row table2)\<rparr>"
  have ge: "MIN_REF_POINTS \<le> kept_count row table2" using assms by simp
  have sel: "select_references row table2 = Inr (Some ?sel)"
    using assms by (simp add: select_references_eq)
  have len: "length (top_records ?sel) = n_top_of (kept_count row table2)"
    "length (top_distances ?sel) = n_top_of (kept_count row table2)"
    by (simp_all add: top_indices_length [OF ge])
  have ne: "filtered_distances ?sel \<noteq> []"
    using ge by (auto simp: kept_count_def MIN_REF_POINTS_def)
  have nn: "\<forall>d \<in> set (filtered_distances ?sel). \<not> isnan d"
    using kept_distances_not_nan by simp
  have "length (top_records ?sel) = length (top_distances ?sel)" by simp
  from score_point_total [OF this ne nn, of row] obtain r
    where r: "score_point row ?sel = Inr r" "r_pointID r = pointID row"
      "Ref_Points_Used r = length (top_records ?sel)"
      "np_min (filtered_distances ?sel) = Inr (Nearest_Ref_Distance r)"
    by blast
  have "process_point row table2 = Inr (Processed r)"
    by (simp add: process_point_def sel bind_err_def r(1))
  with sel len r show ?thesis
    by (intro exI [of _ ?sel] exI [of _ r]) simp
qed

subsection \<open>The batch loop\<close>

lemma process_rows_acc:
  "\<exists>results skipped.
     process_rows table1 table2 rr sr = Inr (rr @ results, sr @ skipped) \<and>
     skipped = map (\<lambda>p. \<lparr>s_pointID = pointID p, Reason = ''Not enough reference points''\<rparr>)
                 (filter (\<lambda>p. kept_count p table2 < MIN_REF_POINTS) table1) \<and>
     list_all2 (\<lambda>r p. process_point p table2 = Inr (Processed r) \<and> r_pointID r = pointID p)
       results (filter (\<lambda>p. \<not> kept_count p table2 < MIN_REF_POINTS) table1)"
proof (induction table1 arbitrary: rr sr)
  case Nil
  then show ?case by simp
next
  case (Cons row rest)
  show ?case
  proof (cases "kept_count row table2 < MIN_REF_POINTS")
    case True
    let ?s = "\<lparr>s_pointID = pointID row, Reason = ''Not enough reference points''\<rparr>"
    from Cons.IH [of rr "sr @ [?s]"] obtain results skipped
      where "process_rows rest table2 rr (sr @ [?s]) = Inr (rr @ results, (sr @ [?s]) @ skipped)"
        and "skipped = map (\<lambda>p. \<lparr>s_pointID = pointID p, Reason = ''Not enough reference points''\<rparr>)
                 (filter (\<lambda>p. kept_count p table2 < MIN_REF_POINTS) rest)"
        and "list_all2 (\<lambda>r p. process_point p table2 = Inr (Processed r) \<and> r_pointID r = pointID p)
               results (filter (\<lambda>p. \<not> kept_count p table2 < MIN_REF_POINTS) rest)"
      by blast
    with True process_point_skipped [OF True] show ?thesis
      by (intro exI [of _ results] exI [of _ "?s # skipped"]) simp
  next
    case False
    from process_point_processed [OF False] obtain r
      where r: "process_point row table2 = Inr (Processed r)" "r_pointID r = pointID row"
      by blast
    from Cons.IH [of "rr @ [r]" sr] obtain results skipped
      where "process_rows rest table2 (rr @ [r]) sr = Inr ((rr @ [r]) @ results, sr @ skipped)"
        and "skipped = map (\<lambda>p. \<lparr>s_pointID = pointID p, Reason = ''Not enough reference points''\<rparr>)
                 (filter (\<lambda>p. kept_count p table2 < MIN_REF_POINTS) rest)"
        and "list_all2 (\<lambda>r p. process_point p table2 = Inr (Processed r) \<and> r_pointID r = pointID p)
               results (filter (\<lambda>p. \<not> kept_count p table2 < MIN_REF_POINTS) rest)"
      by blast
    with False r show ?thesis
      by (intro exI [of _ "r # results"] exI [of _ skipped]) simp
  qed
qed

lemma top_distances_kept:
  assumes "select_references row table2 = Inr (Some sel)"
  shows "filtered_distances sel = kept_distances row table2 \<and>
         set (top_distances sel) \<subseteq> set (kept_distances row table2)"
proof -
  from assms have sel: "sel = \<lparr>filtered_distances = kept_distances row table2,
      top_records = map (\<lambda>i. compress (map (\<lambda>d. flt d THRESHOLD_DISTANCE)
                                   (distances_of row table2)) table2 ! i)
                      (top_indices_of row table2),
      top_distances = map (\<lambda>i. kept_distances row table2 ! i) (top_indices_of row table2)\<rparr>"
    by (simp add: select_references_eq split: if_splits)
  have "i \<in> set (top_indices_of row table2) \<Longrightarrow> i < length (kept_distances row table2)" for i
    using top_indices_range [of row table2] by (auto simp: kept_count_def)
  then show ?thesis by (subst (1 2) sel) auto
qed

subsection \<open>Distances of the reference subset\<close>

lemma kept_distances_finite_nonneg: "list_all finite_nonneg (kept_distances row table2)"
proof -
  have "finite_nonneg (fsqrt x)" if "flt (fsqrt x) THRESHOLD_DISTANCE" for x
    using that by (cases x) (auto simp: finite_nonneg_def THRESHOLD_DISTANCE_def split: if_splits)
  then show ?thesis
    by (auto simp: list_all_iff kept_distances_def distances_of_def)
qed

lemma reference_distances_finite_nonneg:
  assumes "select_references row table2 = Inr (Some sel)"
  shows "list_all finite_nonneg (top_distances sel)"
  using top_distances_kept [OF assms] kept_distances_finite_nonneg [of row table2]
  by (auto simp: list_all_iff)

subsection \<open>The small instance\<close>

lemma demo_distances: "distances_of demo_row demo_table2 = [Fin 3, Fin 4, Fin 5, Fin 12]"
  by (simp add: distances_of_def demo_row_def demo_table2_def demo_point_def fsub_def
      eval_nat_numeral)

lemma demo_kept: "kept_distances demo_row demo_table2 = [Fin 3, Fin 4, Fin 5, Fin 12]"
  by (simp add: kept_distances_def demo_distances THRESHOLD_DISTANCE_def)

lemma demo_kept_count: "kept_count demo_row demo_table2 = 4"
  by (simp add: kept_count_def demo_kept)

lemma demo_far_distances:
  "distances_of demo_far demo_table2 = [Fin 50001, Fin 50000, Fin 49999, Fin 49992]"
  by (simp add: distances_of_def demo_far_def demo_table2_def demo_point_def fsub_def
      eval_nat_numeral)

lemma demo_far_kept: "kept_distances demo_far demo_table2 = [Fin 49999, Fin 49992]"
  by (simp add: kept_distances_def demo_far_distances THRESHOLD_DISTANCE_def)

lemma demo_far_kept_count: "kept_count demo_far demo_table2 = 2"
  by (simp add: kept_count_def demo_far_kept)

lemma demo_cindex_diffs:
  "compress (map (\<lambda>d. flt d THRESHOLD_DISTANCE) (distances_of demo_row demo_table2))
     (cindex_diffs_of demo_row demo_table2) = [Fin (2 / 5), Fin 0, Fin (1 / 10), Fin (1 / 5)]"
proof -
  have "cindex_diffs_of demo_row demo_table2 = [Fin (2 / 5), Fin 0, Fin (1 / 10), Fin (1 / 5)]"
    by (simp add: cindex_diffs_of_def demo_row_def demo_table2_def demo_point_def fsub_def)
  then show ?thesis
    by (simp add: demo_distances THRESHOLD_DISTANCE_def compress_def)
qed

lemma demo_argsort: "argsort [Fin (2 / 5), Fin 0, Fin (1 / 10), Fin (1 / 5)] = [1, 2, 3, 0]"
  by (simp add: argsort_def np_lt_def upt_rec)

lemma demo_n_top: "n_top_of 4 = 3"
  by (simp add: n_top_of_def MIN_REF_POINTS_def TOP_PERCENTILE_def)

lemma demo_top_indices: "top_indices_of demo_row demo_table2 = [1, 2, 3]"
  unfolding top_indices_of_def Let_def demo_kept_count demo_cindex_diffs demo_argsort demo_n_top
  by simp

lemma demo_selection:
  "\<exists>sel. select_references demo_row demo_table2 = Inr (Some sel) \<and>
         top_distances sel = [Fin 4, Fin 5, Fin 12]"
  by (simp add: select_references_eq demo_kept_count demo_kept demo_top_indices
      MIN_REF_POINTS_def)

lemma demo_distances20:
  "distances_of demo_row demo_table20 = map (\<lambda>i. Fin (real i)) [1..<21]"
  by (simp add: distances_of_def demo_row_def demo_table20_def demo_point_def fsub_def
      eval_nat_numeral comp_def)

lemma demo_kept_count20: "kept_count demo_row demo_table20 = 20"
proof -
  have "\<forall>d \<in> set (map (\<lambda>i. Fin (real i)) [1..<21]). flt d THRESHOLD_DISTANCE"
    by (auto simp: THRESHOLD_DISTANCE_def)
  then have "filter (\<lambda>d. flt d THRESHOLD_DISTANCE) (map (\<lambda>i. Fin (real i)) [1..<21])
               = map (\<lambda>i. Fin (real i)) [1..<21]"
    by (simp only: filter_True)
  then show ?thesis
    by (simp add: kept_count_def kept_distances_def demo_distances20)
qed

subsection \<open>Selection, skipping and the nearest distance\<close>

text \<open>
  C2. A candidate counts as kept when its distance is strictly less than the threshold.
  A treatment point with fewer than \<open>MIN_REF_POINTS\<close> kept candidates yields a skip
  record with the reason "Not enough reference points" and no result row; any other
  point yields a result row and no skip record; that row is scored on a reference
  subset in which every record is a candidate of the pool, paired with its own distance
  to the treatment point, and that distance is strictly less than the threshold. The
  loop never fails: the skip records are those of the points with too few kept
  candidates and the result rows those of the other points, both in table order.
\<close>

theorem skip_ledger:
  "(kept_count row table2 < MIN_REF_POINTS \<longrightarrow>
      process_point row table2 =
        Inr (Skipped \<lparr>s_pointID = pointID row, Reason = ''Not enough reference points''\<rparr>)) \<and>
   (\<not> kept_count row table2 < MIN_REF_POINTS \<longrightarrow>
      (\<exists>r sel. process_point row table2 = Inr (Processed r) \<and>
         select_references row table2 = Inr (Some sel) \<and>
         score_point row sel = Inr r \<and>
         r_pointID r = pointID row \<and>
         filtered_distances sel = kept_distances row table2 \<and>
         (\<forall>d \<in> set (top_distances sel). flt d THRESHOLD_DISTANCE) \<and>
         list_all2 (\<lambda>c d. c \<in> set table2 \<and>
                            d = euclidean_distance (X row) (Y row) (X c) (Y c) \<and>
                            flt d THRESHOLD_DISTANCE)
           (top_records sel) (top_distances sel))) \<and>
   (\<exists>results skipped.
      process_rows table1 table2 [] [] = Inr (results, skipped) \<and>
      skipped = map (\<lambda>p. \<lparr>s_pointID = pointID p, Reason = ''Not enough reference points''\<rparr>)
                  (filter (\<lambda>p. kept_count p table2 < MIN_REF_POINTS) table1) \<and>
      list_all2 (\<lambda>r p. process_point p table2 = Inr (Processed r) \<and> r_pointID r = pointID p)
        results (filter (\<lambda>p. \<not> kept_count p table2 < MIN_REF_POINTS) table1))"
proof (intro conjI impI)
  assume "kept_count row table2 < MIN_REF_POINTS"
  then show "process_point row table2 =
      Inr (Skipped \<lparr>s_pointID = pointID row, Reason = ''Not enough reference points''\<rparr>)"
    by (rule process_point_skipped)
next
  assume "\<not> kept_count row table2 < MIN_REF_POINTS"
  from process_point_processed [OF this] obtain sel r
    where sr: "select_references row table2 = Inr (Some sel)"
      "process_point row table2 = Inr (Processed r)"
      "score_point row sel = Inr r" "r_pointID r = pointID row"
    by blast
  from top_distances_kept [OF sr(1)]
  have "filtered_distances sel = kept_distances row table2"
    and "\<forall>d \<in> set (top_distances sel). flt d THRESHOLD_DISTANCE"
    by (auto simp: kept_distances_def)
  with sr reference_records_paired [OF sr(1)]
  show "\<exists>r sel. process_point row table2 = Inr (Processed r) \<and>
         select_references row table2 = Inr (Some sel) \<and>
         score_point row sel = Inr r \<and>
         r_pointID r = pointID row \<and>
         filtered_distances sel = kept_distances row table2 \<and>
         (\<forall>d \<in> set (top_distances sel). flt d THRESHOLD_DISTANCE) \<and>
         list_all2 (\<lambda>c d. c \<in> set table2 \<and>
                            d = euclidean_distance (X row) (Y row) (X c) (Y c) \<and>
                            flt d THRESHOLD_DISTANCE)
           (top_records sel) (top_distances sel)"
    by blast
next
  from process_rows_acc [of table1 table2 "[]" "[]"]
  show "\<exists>results skipped.
      process_rows table1 table2 [] [] = Inr (results, skipped) \<and>
      skipped = map (\<lambda>p. \<lparr>s_pointID = pointID p, Reason = ''Not enough reference points''\<rparr>)
                  (filter (\<lambda>p. kept_count p table2 < MIN_REF_POINTS) table1) \<and>
      list_all2 (\<lambda>r p. process_point p table2 = Inr (Processed r) \<and> r_pointID r = pointID p)
        results (filter (\<lambda>p. \<not> kept_count p table2 < MIN_REF_POINTS) table1)"
    by simp
qed

theorem skip_ledger_witness:
  "kept_count demo_far demo_table2 < MIN_REF_POINTS \<and>
   \<not> kept_count demo_row demo_table2 < MIN_REF_POINTS \<and>
   process_point demo_far demo_table2 =
     Inr (Skipped \<lparr>s_pointID = 9, Reason = ''Not enough reference points''\<rparr>) \<and>
   (\<exists>r. process_point demo_row demo_table2 = Inr (Processed r)) \<and>
   (\<exists>r. process_rows [demo_row, demo_far] demo_table2 [] [] =
           Inr ([r], [\<lparr>s_pointID = 9, Reason = ''Not enough reference points''\<rparr>]) \<and>
         r_pointID r = 0)"
proof -
  have far: "kept_count demo_far demo_table2 < MIN_REF_POINTS"
    by (simp add: demo_far_kept_count MIN_REF_POINTS_def)
  have near: "\<not> kept_count demo_row demo_table2 < MIN_REF_POINTS"
    by (simp add: demo_kept_count MIN_REF_POINTS_def)
  have ids: "pointID demo_far = 9" "pointID demo_row = 0"
    by (simp_all add: demo_far_def demo_row_def demo_point_def)
  from skip_ledger [of demo_far demo_table2 "[demo_row, demo_far]"] far ids
  have a: "process_point demo_far demo_table2 =
      Inr (Skipped \<lparr>s_pointID = 9, Reason = ''Not enough reference points''\<rparr>)"
    by simp
  from skip_ledger [of demo_row demo_table2 "[demo_row, demo_far]"] near
  have b: "\<exists>r. process_point demo_row demo_table2 = Inr (Processed r)"
    by blast
  from skip_ledger [of demo_row demo_table2 "[demo_row, demo_far]"] far near ids
  have c: "\<exists>r. process_rows [demo_row, demo_far] demo_table2 [] [] =
           Inr ([r], [\<lparr>s_pointID = 9, Reason = ''Not enough reference points''\<rparr>]) \<and>
         r_pointID r = 0"
    by (auto simp: list_all2_Cons2)
  from far near a b c show ?thesis by blast
qed

text \<open>
  C1. For a treatment point that is not skipped, the reference subset has exactly
  \<open>max(MIN_REF_POINTS, floor(kept_count * TOP_PERCENTILE))\<close> records and as many
  distances, which is the reported \<open>Ref_Points_Used\<close> and at least \<open>MIN_REF_POINTS\<close>.
\<close>

theorem reference_subset_size:
  assumes "process_point row table2 = Inr (Processed r)"
  shows "\<exists>sel. select_references row table2 = Inr (Some sel) \<and>
           length (top_records sel) =
             max MIN_REF_POINTS (nat \<lfloor>real (kept_count row table2) * TOP_PERCENTILE\<rfloor>) \<and>
           length (top_distances sel) = length (top_records sel) \<and>
           Ref_Points_Used r = length (top_records sel) \<and>
           MIN_REF_POINTS \<le> length (top_records sel)"
proof -
  have ge: "\<not> kept_count row table2 < MIN_REF_POINTS"
  proof
    assume "kept_count row table2 < MIN_REF_POINTS"
    from process_point_skipped [OF this] assms show False by simp
  qed
  from process_point_processed [OF ge] obtain sel r'
    where sel: "select_references row table2 = Inr (Some sel)"
      and len: "length (top_records sel) = n_top_of (kept_count row table2)"
        "length (top_distances sel) = n_top_of (kept_count row table2)"
      and r': "process_point row table2 = Inr (Processed r')"
        "Ref_Points_Used r' = length (top_records sel)"
    by blast
  from r'(1) assms have "r' = r" by simp
  with sel len r'(2) show ?thesis
    by (intro exI [of _ sel]) (simp add: n_top_of_def)
qed

theorem reference_subset_size_witness:
  "(\<exists>r. process_point demo_row demo_table2 = Inr (Processed r) \<and> Ref_Points_Used r = 3) \<and>
   (\<exists>r. process_point demo_row demo_table20 = Inr (Processed r) \<and> Ref_Points_Used r = 4)"
proof
  have "\<not> kept_count demo_row demo_table2 < MIN_REF_POINTS"
    by (simp add: demo_kept_count MIN_REF_POINTS_def)
  from process_point_processed [OF this] obtain r
    where r: "process_point demo_row demo_table2 = Inr (Processed r)" by blast
  from reference_subset_size [OF r] have "Ref_Points_Used r = 3"
    by (auto simp: demo_kept_count MIN_REF_POINTS_def TOP_PERCENTILE_def)
  with r show "\<exists>r. process_point demo_row demo_table2 = Inr (Processed r) \<and> Ref_Points_Used r = 3"
    by blast
next
  have "\<not> kept_count demo_row demo_table20 < MIN_REF_POINTS"
    by (simp add: demo_kept_count20 MIN_REF_POINTS_def)
  from process_point_processed [OF this] obtain r
    where r: "process_point demo_row demo_table20 = Inr (Processed r)" by blast
  from reference_subset_size [OF r] have "Ref_Points_Used r = 4"
    by (auto simp: demo_kept_count20 MIN_REF_POINTS_def TOP_PERCENTILE_def)
  with r show "\<exists>r. process_point demo_row demo_table20 = Inr (Processed r) \<and> Ref_Points_Used r = 4"
    by blast
qed

text \<open>
  C10. For a treatment point that is not skipped, \<open>Nearest_Ref_Distance\<close> is the
  minimum over the distances of all kept candidates: it is one of them and none is
  smaller. It need not be a distance of the reference subset: in the small instance
  the nearest candidate, at 3 metres, is not among the three references.
\<close>

theorem nearest_ref_distance:
  "(process_point row table2 = Inr (Processed r) \<longrightarrow>
      np_min (kept_distances row table2) = Inr (Nearest_Ref_Distance r) \<and>
      Nearest_Ref_Distance r \<in> set (kept_distances row table2) \<and>
      (\<forall>d \<in> set (kept_distances row table2). \<not> flt d (Nearest_Ref_Distance r))) \<and>
   (\<exists>r0 sel. process_point demo_row demo_table2 = Inr (Processed r0) \<and>
      select_references demo_row demo_table2 = Inr (Some sel) \<and>
      Nearest_Ref_Distance r0 \<notin> set (top_distances sel))"
proof (intro conjI impI)
  assume p: "process_point row table2 = Inr (Processed r)"
  have ge: "\<not> kept_count row table2 < MIN_REF_POINTS"
  proof
    assume "kept_count row table2 < MIN_REF_POINTS"
    from process_point_skipped [OF this] p show False by simp
  qed
  from process_point_processed [OF ge] obtain r'
    where r': "process_point row table2 = Inr (Processed r')"
      "np_min (kept_distances row table2) = Inr (Nearest_Ref_Distance r')"
    by blast
  from r'(1) p have eq: "r' = r" by simp
  have ne: "kept_distances row table2 \<noteq> []"
    using ge by (auto simp: kept_count_def MIN_REF_POINTS_def)
  from np_min_nonempty [OF ne kept_distances_not_nan] r'(2)
  show "np_min (kept_distances row table2) = Inr (Nearest_Ref_Distance r)"
    and "Nearest_Ref_Distance r \<in> set (kept_distances row table2)"
    and "\<forall>d \<in> set (kept_distances row table2). \<not> flt d (Nearest_Ref_Distance r)"
    unfolding eq by auto
next
  have "\<not> kept_count demo_row demo_table2 < MIN_REF_POINTS"
    by (simp add: demo_kept_count MIN_REF_POINTS_def)
  from process_point_processed [OF this] obtain r0
    where r0: "process_point demo_row demo_table2 = Inr (Processed r0)"
      "np_min (kept_distances demo_row demo_table2) = Inr (Nearest_Ref_Distance r0)"
    by blast
  from r0(2) have near: "Nearest_Ref_Distance r0 = Fin 3"
    by (simp add: demo_kept fmin2_def)
  from demo_selection obtain sel
    where sel: "select_references demo_row demo_table2 = Inr (Some sel)"
      "top_distances sel = [Fin 4, Fin 5, Fin 12]"
    by blast
  from r0(1) sel near
  show "\<exists>r0 sel. process_point demo_row demo_table2 = Inr (Processed r0) \<and>
      select_references demo_row demo_table2 = Inr (Some sel) \<and>
      Nearest_Ref_Distance r0 \<notin> set (top_distances sel)"
    by (intro exI [of _ r0] exI [of _ sel]) simp
qed

theorem nearest_ref_distance_witness:
  "\<exists>r. process_point demo_row demo_table2 = Inr (Processed r) \<and>
       Nearest_Ref_Distance r = Fin 3 \<and>
       kept_distances demo_row demo_table2 = [Fin 3, Fin 4, Fin 5, Fin 12]"
proof -
  have "\<not> kept_count demo_row demo_table2 < MIN_REF_POINTS"
    by (simp add: demo_kept_count MIN_REF_POINTS_def)
  from process_point_processed [OF this] obtain r
    where r: "process_point demo_row demo_table2 = Inr (Processed r)" by blast
  from nearest_ref_distance [of demo_row demo_table2 r] r
  have "np_min (kept_distances demo_row demo_table2) = Inr (Nearest_Ref_Distance r)" by blast
  then have "Nearest_Ref_Distance r = Fin 3" by (simp add: demo_kept fmin2_def)
  with r show ?thesis by (auto simp: demo_kept)
qed

end
